theory Spec2Isabelle
  imports
    Main
    "HOL-Library.Char_ord"
    "HOL-Library.List_Lexorder"
    "HOL-Library.AList"
begin

section \<open>Text\<close>

text \<open>
  Statement text, paths and header values are Python \<open>str\<close> values. They are modelled as
  \<^typ>\<open>string\<close>, one \<^typ>\<open>char\<close> per code point, for the code points below 256.

  \<open>isspace\<close> is Python's \<open>str.isspace\<close> on one character, which is also what the regular
  expression class \<open>\s\<close> and \<open>str.strip()\<close> use: tab, line feed, vertical tab, form feed,
  carriage return, the four separators 28..31, space, NEL (133) and the no-break space (160).
\<close>

definition isspace :: "char \<Rightarrow> bool" where
  "isspace c = (of_char c \<in> set [9, 10, 11, 12, 13, 28, 29, 30, 31, 32, 133, 160 :: nat])"

text \<open>
  \<open>lower\<close> is the one-character lower-casing that the \<open>re\<close> module applies under
  \<open>re.IGNORECASE\<close>: the capitals \<open>A..Z\<close> and the Latin-1 capitals 192..222 (without the
  multiplication sign 215) move up by 32, every other character stays.
\<close>

definition lower :: "char \<Rightarrow> char" where
  "lower c =
     (let n = of_char c :: nat
      in if (65 \<le> n \<and> n \<le> 90) \<or> (192 \<le> n \<and> n \<le> 222 \<and> n \<noteq> 215)
         then char_of (n + 32) else c)"

text \<open>\<open>str.strip()\<close>, \<open>str.lstrip()\<close> and \<open>str.rstrip()\<close> without an argument.\<close>

definition lstrip :: "string \<Rightarrow> string" where
  "lstrip s = dropWhile isspace s"

definition rstrip :: "string \<Rightarrow> string" where
  "rstrip s = rev (dropWhile isspace (rev s))"

definition strip :: "string \<Rightarrow> string" where
  "strip s = rstrip (lstrip s)"

text \<open>The double quote character, for the string literals of the source that hold one.\<close>

definition dquote :: string where
  "dquote = [CHR 0x22]"

text \<open>\<open>str.startswith(p)\<close>.\<close>

definition startswith :: "string \<Rightarrow> string \<Rightarrow> bool" where
  "startswith s p = (take (length p) s = p)"

section \<open>The read-only pattern\<close>

text \<open>
  \<^verbatim>\<open>_READ_ONLY_RE = re.compile(r"^\s*(SELECT|WITH\s)", re.IGNORECASE | re.DOTALL)\<close>

  The pattern is kept as a syntax tree and run by a matcher, so that what the classifier
  accepts is derived from the pattern and not written down a second time. \<open>LitI c\<close> is a
  literal character of a pattern compiled with \<open>re.IGNORECASE\<close>; \<open>Space\<close> is \<open>\s\<close>.
  \<open>Pattern.match\<close> looks for a match that starts at index 0, so the leading \<open>^\<close> (no
  \<open>re.MULTILINE\<close>) adds nothing; \<open>re.DOTALL\<close> only changes \<open>.\<close>, which the pattern does
  not use.
\<close>

datatype regex =
    Fail
  | Eps
  | LitI char
  | Space
  | Seq regex regex
  | Alt regex regex
  | Star regex

fun nullable :: "regex \<Rightarrow> bool" where
  "nullable Fail = False"
| "nullable Eps = True"
| "nullable (LitI c) = False"
| "nullable Space = False"
| "nullable (Seq r s) = (nullable r \<and> nullable s)"
| "nullable (Alt r s) = (nullable r \<or> nullable s)"
| "nullable (Star r) = True"

text \<open>\<open>deriv c r\<close> is what is left of \<open>r\<close> to match once the character \<open>c\<close> has been read.\<close>

fun deriv :: "char \<Rightarrow> regex \<Rightarrow> regex" where
  "deriv c Fail = Fail"
| "deriv c Eps = Fail"
| "deriv c (LitI d) = (if lower c = lower d then Eps else Fail)"
| "deriv c Space = (if isspace c then Eps else Fail)"
| "deriv c (Seq r s) =
     (if nullable r then Alt (Seq (deriv c r) s) (deriv c s) else Seq (deriv c r) s)"
| "deriv c (Alt r s) = Alt (deriv c r) (deriv c s)"
| "deriv c (Star r) = Seq (deriv c r) (Star r)"

text \<open>
  \<open>re_match r s\<close> is \<open>r.match(s) is not None\<close>: some prefix of \<open>s\<close> matches \<open>r\<close>.
\<close>

fun re_match :: "regex \<Rightarrow> string \<Rightarrow> bool" where
  "re_match r [] = nullable r"
| "re_match r (c # cs) = (nullable r \<or> re_match (deriv c r) cs)"

text \<open>A run of literal characters, as in \<open>SELECT\<close>.\<close>

fun literal :: "string \<Rightarrow> regex" where
  "literal [] = Eps"
| "literal (c # cs) = Seq (LitI c) (literal cs)"

definition READ_ONLY_RE :: regex where
  "READ_ONLY_RE =
     Seq (Star Space) (Alt (literal ''SELECT'') (Seq (literal ''WITH'') Space))"

text \<open>
  The source has no function named \<open>classify\<close>: the classification is the test
  \<^verbatim>\<open>_READ_ONLY_RE.match(sql)\<close> in the view functions. The two tags name its two outcomes.
\<close>

datatype classification = READ_ONLY | MUTATING

definition classify :: "string \<Rightarrow> classification" where
  "classify sql = (if re_match READ_ONLY_RE sql then READ_ONLY else MUTATING)"

text \<open>
  The classification as the specification words it, for comparison with the pattern:
  trim leading whitespace; the text is read-only when what remains begins, without regard
  to case, with \<open>SELECT\<close>, or with \<open>WITH\<close> followed by a whitespace character.
\<close>

definition begins_ci :: "string \<Rightarrow> string \<Rightarrow> bool" where
  "begins_ci kw s = (map lower (take (length kw) s) = map lower kw)"

definition spec_read_only :: "string \<Rightarrow> bool" where
  "spec_read_only s =
     (let t = dropWhile isspace s
      in begins_ci ''SELECT'' t \<or>
         (begins_ci ''WITH'' t \<and> (case drop 4 t of [] \<Rightarrow> False | c # _ \<Rightarrow> isspace c)))"

definition spec_classify :: "string \<Rightarrow> classification" where
  "spec_classify s = (if spec_read_only s then READ_ONLY else MUTATING)"

text \<open>
  The words the pattern accepts, used to relate the matcher to the specification's
  wording: \<open>lang r\<close> is the set of strings that \<open>r\<close> matches in full.
\<close>

definition lang_conc :: "string set \<Rightarrow> string set \<Rightarrow> string set" where
  "lang_conc A B = {xs @ ys | xs ys. xs \<in> A \<and> ys \<in> B}"

inductive_set lang_star :: "string set \<Rightarrow> string set" for A :: "string set" where
  star_nil: "[] \<in> lang_star A"
| star_app: "x \<in> A \<Longrightarrow> ys \<in> lang_star A \<Longrightarrow> x @ ys \<in> lang_star A"

fun lang :: "regex \<Rightarrow> string set" where
  "lang Fail = {}"
| "lang Eps = {[]}"
| "lang (LitI d) = {[c] | c. lower c = lower d}"
| "lang Space = {[c] | c. isspace c}"
| "lang (Seq r s) = lang_conc (lang r) (lang s)"
| "lang (Alt r s) = lang r \<union> lang s"
| "lang (Star r) = lang_star (lang r)"

section \<open>Requests and responses\<close>

text \<open>The blueprint registers views for \<open>GET\<close> and \<open>POST\<close> only; requests carry one of the two.\<close>

datatype http_method = GET | POST

text \<open>
  A parsed JSON document. An object is the \<open>dict\<close> that \<open>json.loads\<close> built, as an
  association list with one entry per key.
\<close>

datatype json =
    JNull
  | JBool bool
  | JNumber int
  | JString string
  | JArray "json list"
  | JObject "(string \<times> json) list"

text \<open>
  What the code reads of a request: \<open>request.path\<close>, \<open>request.headers.get\<close>,
  \<open>request.authorization.password\<close> (\<open>None\<close> when Werkzeug parsed no basic-auth
  credential, or one without a password) and \<open>request.get_json(silent=True)\<close> (\<open>None\<close>
  when the body is not JSON).
\<close>

record request =
  req_method :: http_method
  path :: string
  headers :: "string \<Rightarrow> string option"
  basic_password :: "string option"
  json_body :: "json option"

text \<open>The read endpoint's answer: the keys of the dictionary passed to \<open>jsonify\<close>.\<close>

record 'v query_result =
  q_columns :: "string list"
  q_rows :: "'v list list"
  q_row_count :: nat
  q_truncated :: bool
  q_row_limit :: nat

text \<open>One table of the schema endpoint's answer.\<close>

record column_json =
  cj_name :: string
  cj_type :: string
  cj_nullable :: bool
  cj_default :: "string option"

record foreign_key_json =
  fj_columns :: "string list"
  fj_referred_table :: string
  fj_referred_columns :: "string list"

record index_json =
  ij_name :: string
  ij_columns :: "string list"
  ij_unique :: bool

record table_json =
  tj_columns :: "column_json list"
  tj_primary_key :: "string list"
  tj_foreign_keys :: "foreign_key_json list"
  tj_indexes :: "index_json list"

datatype 'v payload =
    ErrorJson string
  | IndexJson string "string option" "(string \<times> 'v option) list"
  | SchemaJson "(string \<times> table_json) list"
  | QueryJson "'v query_result"
  | PlainText string
  | NotFoundPage
  | MethodNotAllowedPage
  | InternalServerErrorPage string

record 'v response =
  status :: nat
  body :: "'v payload"
  www_authenticate :: "string option"

text \<open>\<open>jsonify(x)\<close> answers 200; \<open>jsonify(x), n\<close> answers \<open>n\<close>.\<close>

definition jsonify :: "nat \<Rightarrow> 'v payload \<Rightarrow> 'v response" where
  "jsonify n p = \<lparr>status = n, body = p, www_authenticate = None\<rparr>"

text \<open>
  What Flask answers without the code's doing: 404 for a URL that no rule matches, 405 for
  a rule matched with another method, 500 for an exception that leaves a view function.
\<close>

definition not_found :: "'v response" where
  "not_found = \<lparr>status = 404, body = NotFoundPage, www_authenticate = None\<rparr>"

definition method_not_allowed :: "'v response" where
  "method_not_allowed = \<lparr>status = 405, body = MethodNotAllowedPage, www_authenticate = None\<rparr>"

definition internal_server_error :: "string \<Rightarrow> 'v response" where
  "internal_server_error exc =
     \<lparr>status = 500, body = InternalServerErrorPage exc, www_authenticate = None\<rparr>"

section \<open>The database behind the engine\<close>

text \<open>
  The database is not part of the repository. It is a parameter: \<open>run\<close> executes one
  statement on the state a transaction sees and gives either the driver's error message or
  a cursor, together with the state the transaction sees afterwards; \<open>reflect\<close> is what the
  SQLAlchemy inspector reports about a committed state.
\<close>

record 'v cursor =
  returns_rows :: bool
  cur_keys :: "string list"
  pending :: "'v list list"

record column_info =
  col_name :: string
  col_type :: string
  col_nullable :: "bool option"
  col_default :: "string option"

record pk_info =
  pk_constrained_columns :: "string list option"

record fk_info =
  fk_constrained_columns :: "string list"
  fk_referred_table :: string
  fk_referred_columns :: "string list"

record idx_info =
  idx_name :: string
  idx_column_names :: "string list"
  idx_unique :: bool

record catalog =
  get_table_names :: "string list"
  get_columns :: "string \<Rightarrow> column_info list"
  get_pk_constraint :: "string \<Rightarrow> pk_info option"
  get_foreign_keys :: "string \<Rightarrow> fk_info list"
  get_indexes :: "string \<Rightarrow> idx_info list"

record ('db, 'v) database =
  run :: "string \<Rightarrow> 'db \<Rightarrow> (string + 'v cursor) \<times> 'db"
  reflect :: "'db \<Rightarrow> catalog"

text \<open>
  The engine: the committed state, whether connecting fails (\<open>Some msg\<close>), the number of
  connections checked out, and the calls made on it so far, oldest first.
\<close>

datatype db_call = Connect | Begin | Execute string | Rollback | Commit | Close | Reflect

record 'db engine =
  durable :: 'db
  refuses :: "string option"
  checked_out :: nat
  calls :: "db_call list"

text \<open>A connection: the state its transaction sees, and whether a transaction is open.\<close>

record 'db connection =
  work :: 'db
  in_transaction :: bool

definition logged :: "db_call \<Rightarrow> 'db engine \<Rightarrow> 'db engine" where
  "logged c e = e\<lparr>calls := calls e @ [c]\<rparr>"

text \<open>\<open>engine.connect()\<close>: raises when the database cannot be reached.\<close>

definition connect :: "'db engine \<Rightarrow> (string + 'db connection) \<times> 'db engine" where
  "connect e =
     (case refuses e of
        Some msg \<Rightarrow> (Inl msg, logged Connect e)
      | None \<Rightarrow>
          (Inr \<lparr>work = durable e, in_transaction = False\<rparr>,
           logged Connect (e\<lparr>checked_out := Suc (checked_out e)\<rparr>)))"

text \<open>\<open>conn.begin()\<close> on a connection that has no transaction yet.\<close>

definition begin_tx :: "'db connection \<times> 'db engine \<Rightarrow> 'db connection \<times> 'db engine" where
  "begin_tx ce = (case ce of (c, e) \<Rightarrow> (c\<lparr>in_transaction := True\<rparr>, logged Begin e))"

text \<open>
  \<open>conn.execute(text(sql))\<close>: a transaction begins by itself when none is open. The
  statement works on the transaction's state, never on the committed one.
\<close>

definition execute ::
  "('db, 'v) database \<Rightarrow> string \<Rightarrow> 'db connection \<times> 'db engine \<Rightarrow>
   (string + 'v cursor) \<times> 'db connection \<times> 'db engine" where
  "execute db sql ce =
     (case ce of (c, e) \<Rightarrow>
        (case run db sql (work c) of (out, w) \<Rightarrow>
           (out, c\<lparr>work := w, in_transaction := True\<rparr>, logged (Execute sql) e)))"

text \<open>\<open>conn.rollback()\<close> and \<open>conn.commit()\<close>. No view function of the source calls \<open>commit\<close>.\<close>

definition rollback :: "'db connection \<times> 'db engine \<Rightarrow> 'db connection \<times> 'db engine" where
  "rollback ce =
     (case ce of (c, e) \<Rightarrow> (c\<lparr>work := durable e, in_transaction := False\<rparr>, logged Rollback e))"

definition commit :: "'db connection \<times> 'db engine \<Rightarrow> 'db connection \<times> 'db engine" where
  "commit ce =
     (case ce of (c, e) \<Rightarrow> (c\<lparr>in_transaction := False\<rparr>, logged Commit (e\<lparr>durable := work c\<rparr>)))"

text \<open>
  Leaving \<^verbatim>\<open>with engine.connect() as conn\<close>, normally or by an exception, closes the
  connection: a transaction still open is rolled back and the connection goes back to the
  pool.
\<close>

definition close :: "'db connection \<times> 'db engine \<Rightarrow> 'db engine" where
  "close ce =
     (case ce of (c, e) \<Rightarrow>
        (let e1 = (if in_transaction c then logged Rollback e else e)
         in logged Close (e1\<lparr>checked_out := checked_out e1 - 1\<rparr>)))"

text \<open>
  The result object: \<open>keys()\<close> raises for a statement that returns no rows;
  \<open>fetchmany(n)\<close> hands out the next \<open>n\<close> rows, fewer when the result is exhausted;
  \<open>fetchone()\<close> hands out the next row or \<open>None\<close>; \<open>scalar()\<close> is the first column of the
  first row, or \<open>None\<close> without a row.
\<close>

definition keys :: "'v cursor \<Rightarrow> string + string list" where
  "keys cur =
     (if returns_rows cur then Inr (cur_keys cur)
      else Inl ''This result object does not return rows. It has been closed automatically.'')"

definition fetchmany :: "nat \<Rightarrow> 'v cursor \<Rightarrow> 'v list list \<times> 'v cursor" where
  "fetchmany n cur = (take n (pending cur), cur\<lparr>pending := drop n (pending cur)\<rparr>)"

definition fetchone :: "'v cursor \<Rightarrow> 'v list option \<times> 'v cursor" where
  "fetchone cur =
     (case pending cur of
        [] \<Rightarrow> (None, cur)
      | r # rs \<Rightarrow> (Some r, cur\<lparr>pending := rs\<rparr>))"

definition scalar :: "'v cursor \<Rightarrow> string + 'v option" where
  "scalar cur =
     (if \<not> returns_rows cur
      then Inl ''This result object does not return rows. It has been closed automatically.''
      else case pending cur of
             [] \<Rightarrow> Inr None
           | r # _ \<Rightarrow> (case r of [] \<Rightarrow> Inl ''tuple index out of range'' | v # _ \<Rightarrow> Inr (Some v)))"

section \<open>The application\<close>

text \<open>
  \<open>secure_app\<close>'s keyword arguments, and the Flask application as the code reads it:
  \<open>app.debug\<close>, \<open>app.name\<close>, the content of \<open>FENRIR.md\<close> under the root path, its parent
  and its grandparent (\<open>None\<close> where there is no such file), the arguments of \<open>secure_app\<close>
  when it was called, and the \<open>row_limit\<close> given to \<open>create_fenrir_bp\<close>. The row limit is a
  count of rows. The application has no views but the blueprint's.
\<close>

record secure_config =
  skip_paths :: "string list option"
  api_key_header :: "string option"

record app =
  debug :: bool
  name :: string
  fenrir_md_files :: "string option list"
  secured :: "secure_config option"
  row_limit :: nat

text \<open>Python's \<open>not s\<close> for an optional string: \<open>None\<close> and the empty string are false.\<close>

definition not_str :: "string option \<Rightarrow> bool" where
  "not_str k = (case k of None \<Rightarrow> True | Some s \<Rightarrow> s = [])"

subsection \<open>\<open>_require_auth\<close>\<close>

text \<open>
  The wrapper around each view of the blueprint. \<open>api_key\<close> is
  \<open>os.environ.get("FENRIR_API_KEY")\<close>; \<open>f\<close> is the wrapped view, run on the engine.
\<close>

definition require_auth ::
  "bool \<Rightarrow> string option \<Rightarrow> request \<Rightarrow> ('db engine \<Rightarrow> 'v response \<times> 'db engine) \<Rightarrow>
   'db engine \<Rightarrow> 'v response \<times> 'db engine" where
  "require_auth app_debug api_key req f e =
     (if app_debug then f e
      else if not_str api_key
      then (jsonify 401 (ErrorJson ''FENRIR_API_KEY not configured''), e)
      else
        (let auth = (case headers req ''Authorization'' of None \<Rightarrow> [] | Some a \<Rightarrow> a)
         in if \<not> startswith auth ''Bearer '' \<or> Some (drop 7 auth) \<noteq> api_key
            then (jsonify 401 (ErrorJson ''unauthorized''), e)
            else f e))"

subsection \<open>\<open>secure_app\<close>\<close>

definition skip_list :: "secure_config \<Rightarrow> string list" where
  "skip_list cfg =
     [''/fenrir/'', ''/static/''] @ (case skip_paths cfg of None \<Rightarrow> [] | Some ps \<Rightarrow> ps)"

text \<open>
  The \<open>before_request\<close> hook. \<open>endpoint\<close> is \<open>request.endpoint\<close>. \<open>None\<close> lets the request
  through to the view; \<open>Some r\<close> answers \<open>r\<close> at once.
\<close>

definition basic_auth_check ::
  "bool \<Rightarrow> secure_config \<Rightarrow> string option \<Rightarrow> request \<Rightarrow> string option \<Rightarrow>
   'v response option" where
  "basic_auth_check app_debug cfg api_key req endpoint =
     (if app_debug then None
      else if path req = ''/'' \<or> list_ex (startswith (path req)) (skip_list cfg) then None
      else if endpoint = Some ''static'' then None
      else if not_str api_key
      then Some \<lparr>status = 503, body = PlainText ''Not configured'', www_authenticate = None\<rparr>
      else if (case api_key_header cfg of
                 None \<Rightarrow> False
               | Some h \<Rightarrow>
                   h \<noteq> [] \<and>
                   (let header_val = headers req h
                    in \<not> not_str header_val \<and> header_val = api_key))
      then None
      else if basic_password req \<noteq> None \<and> basic_password req = api_key then None
      else Some \<lparr>status = 401, body = PlainText ''Authentication required'',
                 www_authenticate = Some (''Basic realm='' @ dquote @ ''Login'' @ dquote)\<rparr>)"

subsection \<open>\<open>_read_fenrir_md\<close> and \<open>_extract_app_name\<close>\<close>

definition read_fenrir_md :: "string option list \<Rightarrow> string option" where
  "read_fenrir_md candidates =
     (case filter (\<lambda>c. c \<noteq> None) (take 3 candidates) of [] \<Rightarrow> None | c # _ \<Rightarrow> c)"

text \<open>
  \<open>str.splitlines()\<close>: a line ends at a line feed, vertical tab, form feed, carriage
  return, one of the separators 28..30 or NEL; a carriage return and the line feed after
  it end one line. \<open>cr\<close> says that the character before was a carriage return that ended
  a line; \<open>cur\<close> is the line being read, last character first.
\<close>

definition is_linebreak :: "char \<Rightarrow> bool" where
  "is_linebreak c = (of_char c \<in> set [10, 11, 12, 13, 28, 29, 30, 133 :: nat])"

fun splitlines_from :: "bool \<Rightarrow> string \<Rightarrow> string \<Rightarrow> string list" where
  "splitlines_from cr cur [] = (if cur = [] then [] else [rev cur])"
| "splitlines_from cr cur (c # cs) =
     (if cr \<and> c = CHR 0x0A then splitlines_from False cur cs
      else if is_linebreak c then rev cur # splitlines_from (c = CHR 0x0D) [] cs
      else splitlines_from False (c # cur) cs)"

definition splitlines :: "string \<Rightarrow> string list" where
  "splitlines s = splitlines_from False [] s"

fun first_heading :: "string list \<Rightarrow> string option" where
  "first_heading [] = None"
| "first_heading (line # ls) =
     (let stripped = strip line
      in if startswith stripped ''#''
         then Some (strip (dropWhile (\<lambda>c. c = CHR ''#'') stripped))
         else first_heading ls)"

definition extract_app_name :: "string option \<Rightarrow> string \<Rightarrow> string" where
  "extract_app_name md app_name =
     (case md of
        None \<Rightarrow> app_name
      | Some text \<Rightarrow>
          (if text = [] then app_name
           else case first_heading (splitlines text) of
                  Some title \<Rightarrow> title
                | None \<Rightarrow> app_name))"

subsection \<open>\<open>GET /fenrir/\<close>\<close>

text \<open>
  The loop over \<open>sorted(insp.get_table_names())\<close>: one \<open>COUNT(*)\<close> per table on the open
  connection. An exception ends the loop and leaves the view.
\<close>

fun count_tables ::
  "('db, 'v) database \<Rightarrow> string list \<Rightarrow> 'db connection \<times> 'db engine \<Rightarrow>
   (string + (string \<times> 'v option) list) \<times> 'db connection \<times> 'db engine" where
  "count_tables db [] ce = (Inr [], ce)"
| "count_tables db (table_name # ts) ce =
     (case execute db (''SELECT COUNT(*) FROM '' @ dquote @ table_name @ dquote) ce of
        (Inl exc, ce1) \<Rightarrow> (Inl exc, ce1)
      | (Inr cur, ce1) \<Rightarrow>
          (case scalar cur of
             Inl exc \<Rightarrow> (Inl exc, ce1)
           | Inr count \<Rightarrow>
               (case count_tables db ts ce1 of
                  (Inl exc, ce2) \<Rightarrow> (Inl exc, ce2)
                | (Inr tables, ce2) \<Rightarrow> (Inr ((table_name, count) # tables), ce2))))"

definition index ::
  "app \<Rightarrow> ('db, 'v) database \<Rightarrow> 'db engine \<Rightarrow> 'v response \<times> 'db engine" where
  "index a db e =
     (let md = read_fenrir_md (fenrir_md_files a);
          app_name = extract_app_name md (name a)
      in case connect e of
           (Inl exc, e1) \<Rightarrow> (internal_server_error exc, e1)
         | (Inr conn, e1) \<Rightarrow>
             (let table_names = sort (get_table_names (reflect db (durable e1)))
              in case count_tables db table_names (conn, logged Reflect e1) of
                   (Inl exc, ce2) \<Rightarrow> (internal_server_error exc, close ce2)
                 | (Inr tables, ce2) \<Rightarrow>
                     (jsonify 200 (IndexJson app_name md tables), close ce2)))"

subsection \<open>\<open>GET /fenrir/schema\<close>\<close>

definition describe_table :: "catalog \<Rightarrow> string \<Rightarrow> table_json" where
  "describe_table insp table_name =
     \<lparr>tj_columns =
        map (\<lambda>col. \<lparr>cj_name = col_name col,
                     cj_type = col_type col,
                     cj_nullable = (case col_nullable col of None \<Rightarrow> True | Some b \<Rightarrow> b),
                     cj_default = col_default col\<rparr>)
            (get_columns insp table_name),
      tj_primary_key =
        (case get_pk_constraint insp table_name of
           None \<Rightarrow> []
         | Some pk \<Rightarrow> (case pk_constrained_columns pk of None \<Rightarrow> [] | Some cs \<Rightarrow> cs)),
      tj_foreign_keys =
        map (\<lambda>fk. \<lparr>fj_columns = fk_constrained_columns fk,
                    fj_referred_table = fk_referred_table fk,
                    fj_referred_columns = fk_referred_columns fk\<rparr>)
            (get_foreign_keys insp table_name),
      tj_indexes =
        map (\<lambda>idx. \<lparr>ij_name = idx_name idx,
                     ij_columns = idx_column_names idx,
                     ij_unique = idx_unique idx\<rparr>)
            (get_indexes insp table_name)\<rparr>"

text \<open>
  \<^verbatim>\<open>tables[table_name] = {...}\<close> on a \<open>dict\<close>, which keeps its keys in the order of their
  first insertion: \<open>AList.update\<close> replaces the value of a key already there and appends a
  new key.
\<close>

fun describe_tables ::
  "catalog \<Rightarrow> string list \<Rightarrow> (string \<times> table_json) list \<Rightarrow> (string \<times> table_json) list" where
  "describe_tables insp [] tables = tables"
| "describe_tables insp (table_name # ts) tables =
     describe_tables insp ts (AList.update table_name (describe_table insp table_name) tables)"

definition schema ::
  "('db, 'v) database \<Rightarrow> 'db engine \<Rightarrow> 'v response \<times> 'db engine" where
  "schema db e =
     (case refuses e of
        Some exc \<Rightarrow> (internal_server_error exc, logged Reflect e)
      | None \<Rightarrow>
          (let insp = reflect db (durable e)
           in (jsonify 200 (SchemaJson (describe_tables insp (sort (get_table_names insp)) [])),
               logged Reflect e)))"

subsection \<open>\<open>POST /fenrir/query\<close>\<close>

text \<open>
  \<^verbatim>\<open>body = request.get_json(silent=True) or {}\<close> and \<^verbatim>\<open>body.get("sql", "")\<close>, before
  \<open>.strip()\<close>. A body that is true and not an object has no \<open>get\<close>, and a value that is not
  a string has no \<open>strip\<close>: both raise \<open>AttributeError\<close>.
\<close>

fun truthy :: "json \<Rightarrow> bool" where
  "truthy JNull = False"
| "truthy (JBool b) = b"
| "truthy (JNumber n) = (n \<noteq> 0)"
| "truthy (JString s) = (s \<noteq> [])"
| "truthy (JArray xs) = (xs \<noteq> [])"
| "truthy (JObject kvs) = (kvs \<noteq> [])"

definition body_sql :: "request \<Rightarrow> string + string" where
  "body_sql req =
     (let body = (case json_body req of
                    None \<Rightarrow> JObject []
                  | Some j \<Rightarrow> if truthy j then j else JObject [])
      in case body of
           JObject kvs \<Rightarrow>
             (case map_of kvs ''sql'' of
                None \<Rightarrow> Inr []
              | Some (JString s) \<Rightarrow> Inr s
              | Some _ \<Rightarrow> Inl ''AttributeError'')
         | _ \<Rightarrow> Inl ''AttributeError'')"

text \<open>
  The \<open>try\<close> block of \<open>query\<close>: \<open>Inl\<close> is the message of the exception that the
  \<open>except\<close> clause catches. The outcome of \<open>SET TRANSACTION READ ONLY\<close> is dropped, as by
  the inner \<^verbatim>\<open>except Exception: pass\<close>.
\<close>

definition query_try ::
  "('db, 'v) database \<Rightarrow> nat \<Rightarrow> string \<Rightarrow> 'db engine \<Rightarrow>
   (string + 'v query_result) \<times> 'db engine" where
  "query_try db limit sql e =
     (case connect e of
        (Inl exc, e1) \<Rightarrow> (Inl exc, e1)
      | (Inr conn, e1) \<Rightarrow>
          (let ce2 = begin_tx (conn, e1);
               ce3 = snd (execute db ''SET TRANSACTION READ ONLY'' ce2)
           in case execute db sql ce3 of
                (Inl exc, ce4) \<Rightarrow> (Inl exc, close ce4)
              | (Inr result, ce4) \<Rightarrow>
                  (case keys result of
                     Inl exc \<Rightarrow> (Inl exc, close ce4)
                   | Inr columns \<Rightarrow>
                       (let (rows, result1) = fetchmany limit result;
                            total = length rows;
                            extra = fst (fetchone result1);
                            truncated = (extra \<noteq> None);
                            ce5 = rollback ce4
                        in (Inr \<lparr>q_columns = columns, q_rows = rows, q_row_count = total,
                                  q_truncated = truncated, q_row_limit = limit\<rparr>,
                            close ce5)))))"


definition query ::
  "('db, 'v) database \<Rightarrow> nat \<Rightarrow> request \<Rightarrow> 'db engine \<Rightarrow> 'v response \<times> 'db engine" where
  "query db limit req e =
     (case body_sql req of
        Inl exc \<Rightarrow> (internal_server_error exc, e)
      | Inr raw \<Rightarrow>
          (let sql = strip raw
           in if sql = [] then (jsonify 400 (ErrorJson ''missing 'sql' field''), e)
              else if \<not> re_match READ_ONLY_RE sql
              then (jsonify 400 (ErrorJson ''only SELECT (or WITH ... SELECT) allowed''), e)
              else case query_try db limit sql e of
                     (Inl exc, e1) \<Rightarrow> (jsonify 422 (ErrorJson exc), e1)
                   | (Inr res, e1) \<Rightarrow> (jsonify 200 (QueryJson res), e1)))"

subsection \<open>The blueprint and its dispatch\<close>

text \<open>
  The rules that \<open>create_fenrir_bp\<close> registers under the prefix \<open>/fenrir\<close>, each with its
  methods and its view. No rule has a variable part, so a rule matches a request whose
  path is the rule's; the redirect that Werkzeug sends for \<open>/fenrir\<close> without its
  trailing slash is left out.
\<close>

datatype view = Index_view | Schema_view | Query_view

definition url_map :: "(string \<times> http_method list \<times> view) list" where
  "url_map =
     [(''/fenrir/'', [GET], Index_view),
      (''/fenrir/schema'', [GET], Schema_view),
      (''/fenrir/query'', [POST], Query_view)]"

definition endpoint_name :: "view \<Rightarrow> string" where
  "endpoint_name v =
     (case v of Index_view \<Rightarrow> ''fenrir.index''
              | Schema_view \<Rightarrow> ''fenrir.schema''
              | Query_view \<Rightarrow> ''fenrir.query'')"

datatype routing = Matched view | No_rule | Wrong_method

definition route :: "http_method \<Rightarrow> string \<Rightarrow> routing" where
  "route m p =
     (case filter (\<lambda>r. fst r = p) url_map of
        [] \<Rightarrow> No_rule
      | rs \<Rightarrow>
          (case filter (\<lambda>r. m \<in> set (fst (snd r))) rs of
             [] \<Rightarrow> Wrong_method
           | r # _ \<Rightarrow> Matched (snd (snd r))))"

definition run_view ::
  "app \<Rightarrow> ('db, 'v) database \<Rightarrow> view \<Rightarrow> request \<Rightarrow> 'db engine \<Rightarrow> 'v response \<times> 'db engine" where
  "run_view a db v req =
     (case v of
        Index_view \<Rightarrow> index a db
      | Schema_view \<Rightarrow> schema db
      | Query_view \<Rightarrow> query db (row_limit a) req)"

text \<open>
  One request through the application: the URL is matched, the \<open>before_request\<close> hook of
  \<open>secure_app\<close> runs when it was installed, then Flask answers a routing failure or calls
  the view under \<open>_require_auth\<close>.
\<close>

definition serve ::
  "app \<Rightarrow> string option \<Rightarrow> ('db, 'v) database \<Rightarrow> request \<Rightarrow> 'db engine \<Rightarrow>
   'v response \<times> 'db engine" where
  "serve a api_key db req e =
     (let r = route (req_method req) (path req);
          endpoint = (case r of Matched v \<Rightarrow> Some (endpoint_name v) | _ \<Rightarrow> None);
          blocked = (case secured a of
                       None \<Rightarrow> None
                     | Some cfg \<Rightarrow> basic_auth_check (debug a) cfg api_key req endpoint)
      in case blocked of
           Some resp \<Rightarrow> (resp, e)
         | None \<Rightarrow>
             (case r of
                No_rule \<Rightarrow> (not_found, e)
              | Wrong_method \<Rightarrow> (method_not_allowed, e)
              | Matched v \<Rightarrow> require_auth (debug a) api_key req (run_view a db v req) e))"

section \<open>The test application\<close>

text \<open>
  The application of \<open>tests/test_fenrir_api.py\<close>: the blueprint alone on a Flask
  application, \<open>FENRIR.md\<close> beside it, the key \<open>test-secret-key\<close>, and a database with
  the tables \<open>author\<close> and \<open>book\<close>. The database state is the list of author names; the
  statements it understands are the ones used below, and every other statement is an
  error (so is \<open>SET TRANSACTION READ ONLY\<close>, as on SQLite). The last statement it
  understands is a read by its first keyword that inserts a row.
\<close>

datatype sqlval = IntV int | TextV string

definition bookstore_catalog :: catalog where
  "bookstore_catalog =
     \<lparr>get_table_names = [''book'', ''author''],
      get_columns = (\<lambda>t.
        if t = ''author''
        then [\<lparr>col_name = ''id'', col_type = ''INTEGER'', col_nullable = Some False, col_default = None\<rparr>,
              \<lparr>col_name = ''name'', col_type = ''VARCHAR'', col_nullable = Some False, col_default = None\<rparr>,
              \<lparr>col_name = ''email'', col_type = ''VARCHAR'', col_nullable = Some True, col_default = None\<rparr>]
        else [\<lparr>col_name = ''id'', col_type = ''INTEGER'', col_nullable = Some False, col_default = None\<rparr>,
              \<lparr>col_name = ''title'', col_type = ''VARCHAR'', col_nullable = Some False, col_default = None\<rparr>,
              \<lparr>col_name = ''author_id'', col_type = ''INTEGER'', col_nullable = Some False, col_default = None\<rparr>,
              \<lparr>col_name = ''pages'', col_type = ''INTEGER'', col_nullable = Some True, col_default = None\<rparr>]),
      get_pk_constraint = (\<lambda>t. Some \<lparr>pk_constrained_columns = Some [''id'']\<rparr>),
      get_foreign_keys = (\<lambda>t.
        if t = ''book''
        then [\<lparr>fk_constrained_columns = [''author_id''], fk_referred_table = ''author'',
               fk_referred_columns = [''id'']\<rparr>]
        else []),
      get_indexes = (\<lambda>t. [])\<rparr>"

definition bookstore_run ::
  "string \<Rightarrow> string list \<Rightarrow> (string + sqlval cursor) \<times> string list" where
  "bookstore_run sql authors =
     (if sql = ''SELECT name FROM author''
      then (Inr \<lparr>returns_rows = True, cur_keys = [''name''],
                 pending = map (\<lambda>n. [TextV n]) authors\<rparr>, authors)
      else if sql = ''SELECT COUNT(*) FROM '' @ dquote @ ''author'' @ dquote
      then (Inr \<lparr>returns_rows = True, cur_keys = [''COUNT(*)''],
                 pending = [[IntV (int (length authors))]]\<rparr>, authors)
      else if sql = ''SELECT COUNT(*) FROM '' @ dquote @ ''book'' @ dquote
      then (Inr \<lparr>returns_rows = True, cur_keys = [''COUNT(*)''], pending = [[IntV 1]]\<rparr>, authors)
      else if sql = ''WITH t AS (SELECT 1) INSERT INTO author (name) VALUES ('nope')''
      then (Inr \<lparr>returns_rows = False, cur_keys = [], pending = []\<rparr>, authors @ [''nope''])
      else (Inl ''syntax error'', authors))"

definition bookstore :: "(string list, sqlval) database" where
  "bookstore = \<lparr>run = bookstore_run, reflect = (\<lambda>authors. bookstore_catalog)\<rparr>"

definition seeded :: "string list \<Rightarrow> string list engine" where
  "seeded authors = \<lparr>durable = authors, refuses = None, checked_out = 0, calls = []\<rparr>"

definition test_app :: "nat \<Rightarrow> app" where
  "test_app n =
     \<lparr>debug = False, name = ''test_fenrir_api'',
      fenrir_md_files =
        [Some (''# Bookstore'' @ [CHR 0x0A, CHR 0x0A] @ ''A tiny bookstore app.'' @ [CHR 0x0A])],
      secured = None, row_limit = n\<rparr>"

definition API_KEY :: string where
  "API_KEY = ''test-secret-key''"

definition auth_headers :: "string \<Rightarrow> string option" where
  "auth_headers h = (if h = ''Authorization'' then Some (''Bearer '' @ API_KEY) else None)"

definition client_get :: "string \<Rightarrow> request" where
  "client_get p =
     \<lparr>req_method = GET, path = p, headers = auth_headers, basic_password = None, json_body = None\<rparr>"

definition client_post :: "string \<Rightarrow> json \<Rightarrow> request" where
  "client_post p j =
     \<lparr>req_method = POST, path = p, headers = auth_headers, basic_password = None,
      json_body = Some j\<rparr>"

section \<open>The pattern and the specification of the classifier\<close>

lemma in_conc: "w \<in> lang_conc A B \<longleftrightarrow> (\<exists>u v. w = u @ v \<and> u \<in> A \<and> v \<in> B)"
  by (auto simp: lang_conc_def)

lemma nil_in_conc: "[] \<in> lang_conc A B \<longleftrightarrow> [] \<in> A \<and> [] \<in> B"
  by (auto simp: lang_conc_def)

lemma cons_in_conc:
  "c # w \<in> lang_conc A B \<longleftrightarrow>
     (\<exists>u v. w = u @ v \<and> c # u \<in> A \<and> v \<in> B) \<or> ([] \<in> A \<and> c # w \<in> B)"
proof
  assume "c # w \<in> lang_conc A B"
  then obtain xs ys where xy: "c # w = xs @ ys" "xs \<in> A" "ys \<in> B"
    by (auto simp: lang_conc_def)
  show "(\<exists>u v. w = u @ v \<and> c # u \<in> A \<and> v \<in> B) \<or> ([] \<in> A \<and> c # w \<in> B)"
  proof (cases xs)
    case Nil
    with xy show ?thesis by simp
  next
    case (Cons x xs')
    with xy have "w = xs' @ ys" "c # xs' \<in> A" by simp_all
    with xy show ?thesis by blast
  qed
next
  assume "(\<exists>u v. w = u @ v \<and> c # u \<in> A \<and> v \<in> B) \<or> ([] \<in> A \<and> c # w \<in> B)"
  then show "c # w \<in> lang_conc A B"
  proof
    assume "\<exists>u v. w = u @ v \<and> c # u \<in> A \<and> v \<in> B"
    then obtain u v where "w = u @ v" "c # u \<in> A" "v \<in> B" by blast
    then have "c # w = (c # u) @ v" "c # u \<in> A" "v \<in> B" by simp_all
    then show ?thesis unfolding lang_conc_def by blast
  next
    assume "[] \<in> A \<and> c # w \<in> B"
    then have "c # w = [] @ (c # w)" "[] \<in> A" "c # w \<in> B" by simp_all
    then show ?thesis unfolding lang_conc_def by blast
  qed
qed

lemma star_cons_split:
  "w \<in> lang_star A \<Longrightarrow> w = c # t \<Longrightarrow> \<exists>u v. t = u @ v \<and> c # u \<in> A \<and> v \<in> lang_star A"
proof (induction rule: lang_star.induct)
  case star_nil
  then show ?case by simp
next
  case (star_app x ys)
  show ?case
  proof (cases x)
    case Nil
    with star_app show ?thesis by simp
  next
    case (Cons a x')
    with star_app.prems have "a = c" "t = x' @ ys" by simp_all
    with Cons star_app.hyps show ?thesis by blast
  qed
qed

lemma cons_in_star:
  "c # w \<in> lang_star A \<longleftrightarrow> (\<exists>u v. w = u @ v \<and> c # u \<in> A \<and> v \<in> lang_star A)"
proof
  assume "c # w \<in> lang_star A"
  then show "\<exists>u v. w = u @ v \<and> c # u \<in> A \<and> v \<in> lang_star A"
    using star_cons_split by blast
next
  assume "\<exists>u v. w = u @ v \<and> c # u \<in> A \<and> v \<in> lang_star A"
  then obtain u v where uv: "w = u @ v" "c # u \<in> A" "v \<in> lang_star A" by blast
  then have "(c # u) @ v \<in> lang_star A" by (rule_tac star_app)
  with uv show "c # w \<in> lang_star A" by simp
qed

lemma nullable_iff: "nullable r \<longleftrightarrow> [] \<in> lang r"
  by (induction r) (auto simp: nil_in_conc intro: star_nil)

lemma lang_deriv: "w \<in> lang (deriv c r) \<longleftrightarrow> c # w \<in> lang r"
proof (induction r arbitrary: w)
  case (Seq r s)
  have a: "w \<in> lang_conc (lang (deriv c r)) (lang s) \<longleftrightarrow>
             (\<exists>u v. w = u @ v \<and> c # u \<in> lang r \<and> v \<in> lang s)"
    by (simp only: in_conc Seq.IH)
  show ?case
  proof (cases "nullable r")
    case True
    then show ?thesis
      using a Seq.IH(2) [of w] by (simp only: deriv.simps lang.simps if_True Un_iff cons_in_conc nullable_iff [symmetric]) simp
  next
    case False
    then show ?thesis
      using a by (simp only: deriv.simps lang.simps if_False cons_in_conc nullable_iff [symmetric]) simp
  qed
next
  case (Star r)
  show ?case
    by (simp only: deriv.simps lang.simps cons_in_star in_conc Star.IH)
qed auto

lemma re_match_iff: "re_match r s \<longleftrightarrow> (\<exists>p q. s = p @ q \<and> p \<in> lang r)"
proof (induction s arbitrary: r)
  case Nil
  then show ?case by (simp add: nullable_iff)
next
  case (Cons c cs)
  show ?case
  proof
    assume "re_match r (c # cs)"
    then consider "nullable r" | "re_match (deriv c r) cs" by auto
    then show "\<exists>p q. c # cs = p @ q \<and> p \<in> lang r"
    proof cases
      case 1
      then have "c # cs = [] @ (c # cs)" "[] \<in> lang r" by (simp_all add: nullable_iff)
      then show ?thesis by blast
    next
      case 2
      with Cons.IH obtain p q where "cs = p @ q" "p \<in> lang (deriv c r)" by blast
      then have "c # cs = (c # p) @ q" "c # p \<in> lang r" by (simp_all add: lang_deriv)
      then show ?thesis by blast
    qed
  next
    assume "\<exists>p q. c # cs = p @ q \<and> p \<in> lang r"
    then obtain p q where pq: "c # cs = p @ q" "p \<in> lang r" by blast
    show "re_match r (c # cs)"
    proof (cases p)
      case Nil
      with pq have "nullable r" by (simp add: nullable_iff)
      then show ?thesis by simp
    next
      case (Cons a p')
      with pq have "cs = p' @ q" "p' \<in> lang (deriv c r)" by (simp_all add: lang_deriv)
      with Cons.IH show ?thesis by auto
    qed
  qed
qed

lemma lang_literal: "w \<in> lang (literal kw) \<longleftrightarrow> map lower w = map lower kw"
proof (induction kw arbitrary: w)
  case Nil
  then show ?case by simp
next
  case (Cons k kw)
  show ?case
  proof (cases w)
    case Nil
    then show ?thesis by (simp add: lang_conc_def)
  next
    case (Cons a w')
    with Cons.IH show ?thesis by (auto simp: cons_in_conc)
  qed
qed

lemma star_space: "w \<in> lang_star (lang Space) \<longleftrightarrow> (\<forall>c \<in> set w. isspace c)"
proof
  assume "w \<in> lang_star (lang Space)"
  then show "\<forall>c \<in> set w. isspace c"
    by (induction rule: lang_star.induct) auto
next
  assume "\<forall>c \<in> set w. isspace c"
  then show "w \<in> lang_star (lang Space)"
  proof (induction w)
    case Nil
    show ?case by (rule star_nil)
  next
    case (Cons a w)
    then have "[a] \<in> lang Space" "w \<in> lang_star (lang Space)" by simp_all
    then have "[a] @ w \<in> lang_star (lang Space)" by (rule star_app)
    then show ?case by simp
  qed
qed

lemma lower_examples: "lower CHR ''S'' = CHR ''s''" "lower CHR ''W'' = CHR ''w''" "lower CHR ''x'' = CHR ''x''"
  by (simp_all add: lower_def char_of_eq_iff)


lemma isspace_cases:
  "isspace a \<longleftrightarrow> a \<in> set (map char_of [9, 10, 11, 12, 13, 28, 29, 30, 31, 32, 133, 160 :: nat])"
proof -
  have "\<And>n::nat. n < 256 \<Longrightarrow> (of_char a = n) = (a = char_of n)"
    by (metis char_of_char of_char_of mod_less)
  then show ?thesis by (simp add: isspace_def)
qed

lemma isspace_lower: "isspace a \<Longrightarrow> lower a = a"
  by (auto simp: isspace_def lower_def)

lemma lower_letter_not_space:
  assumes "lower a = CHR ''s'' \<or> lower a = CHR ''w''"
  shows "\<not> isspace a"
proof
  assume sp: "isspace a"
  then have "lower a = a" by (rule isspace_lower)
  with assms have "a = CHR ''s'' \<or> a = CHR ''w''" by simp
  with sp show False by (auto simp: isspace_def)
qed

lemma kw_head:
  assumes "map lower w = map lower ''SELECT'' \<or>
           (\<exists>u c. w = u @ [c] \<and> map lower u = map lower ''WITH'' \<and> isspace c)"
  shows "\<exists>a w'. w = a # w' \<and> \<not> isspace a"
proof -
  from assms obtain a w' where w: "w = a # w'"
    and a: "lower a = CHR ''s'' \<or> lower a = CHR ''w''"
    by (cases w) (auto simp: lower_examples Cons_eq_append_conv)
  with lower_letter_not_space show ?thesis by blast
qed

lemma in_READ_ONLY_RE:
  "p \<in> lang READ_ONLY_RE \<longleftrightarrow>
     (\<exists>ws w. p = ws @ w \<and> (\<forall>c \<in> set ws. isspace c) \<and>
        (map lower w = map lower ''SELECT'' \<or>
         (\<exists>u c. w = u @ [c] \<and> map lower u = map lower ''WITH'' \<and> isspace c)))"
proof -
  have sp: "\<And>v. v \<in> lang Space \<longleftrightarrow> (\<exists>c. v = [c] \<and> isspace c)" by auto
  have "\<And>w. w \<in> lang (Alt (literal ''SELECT'') (Seq (literal ''WITH'') Space)) \<longleftrightarrow>
        (map lower w = map lower ''SELECT'' \<or>
         (\<exists>u c. w = u @ [c] \<and> map lower u = map lower ''WITH'' \<and> isspace c))"
    by (simp only: lang.simps(5,6) Un_iff in_conc lang_literal sp) blast
  then show ?thesis
    by (simp only: READ_ONLY_RE_def lang.simps(5,7) in_conc star_space)
qed

lemma re_match_READ_ONLY_RE: "re_match READ_ONLY_RE s \<longleftrightarrow> spec_read_only s"
proof
  assume "re_match READ_ONLY_RE s"
  then obtain p q where s: "s = p @ q" and p: "p \<in> lang READ_ONLY_RE"
    by (auto simp: re_match_iff)
  from p obtain ws w where pw: "p = ws @ w" and ws: "\<forall>c \<in> set ws. isspace c"
    and w: "map lower w = map lower ''SELECT'' \<or>
            (\<exists>u c. w = u @ [c] \<and> map lower u = map lower ''WITH'' \<and> isspace c)"
    unfolding in_READ_ONLY_RE by blast
  from kw_head [OF w] obtain a w' where aw: "w = a # w'" "\<not> isspace a" by blast
  have t: "dropWhile isspace s = w @ q"
    using ws aw by (simp add: s pw dropWhile_append3)
  from w show "spec_read_only s"
  proof
    assume sel: "map lower w = map lower ''SELECT''"
    have "length (map lower w) = length (map lower ''SELECT'')" using sel by simp
    then have "length w = 6" by simp
    with sel show ?thesis by (simp add: spec_read_only_def t begins_ci_def)
  next
    assume "\<exists>u c. w = u @ [c] \<and> map lower u = map lower ''WITH'' \<and> isspace c"
    then obtain u c where u: "w = u @ [c]" "map lower u = map lower ''WITH''" "isspace c"
      by blast
    have "length (map lower u) = length (map lower ''WITH'')" using u(2) by simp
    then have "length u = 4" by simp
    with u show ?thesis by (simp add: spec_read_only_def t begins_ci_def)
  qed
next
  assume a: "spec_read_only s"
  define ws where "ws = takeWhile isspace s"
  define t where "t = dropWhile isspace s"
  have s: "s = ws @ t" by (simp add: ws_def t_def)
  have ws: "\<forall>c \<in> set ws. isspace c" by (auto simp: ws_def dest: set_takeWhileD)
  from a have "begins_ci ''SELECT'' t \<or>
     (begins_ci ''WITH'' t \<and> (case drop 4 t of [] \<Rightarrow> False | c # _ \<Rightarrow> isspace c))"
    by (simp add: spec_read_only_def t_def Let_def)
  then have "\<exists>w q. t = w @ q \<and> (map lower w = map lower ''SELECT'' \<or>
         (\<exists>u c. w = u @ [c] \<and> map lower u = map lower ''WITH'' \<and> isspace c))"
  proof
    assume "begins_ci ''SELECT'' t"
    then have "map lower (take (length ''SELECT'') t) = map lower ''SELECT''"
      by (simp only: begins_ci_def)
    moreover have "t = take (length ''SELECT'') t @ drop (length ''SELECT'') t"
      by (simp only: append_take_drop_id)
    ultimately show ?thesis by blast
  next
    assume b: "begins_ci ''WITH'' t \<and> (case drop 4 t of [] \<Rightarrow> False | c # _ \<Rightarrow> isspace c)"
    then obtain c r where d: "drop 4 t = c # r" "isspace c" by (auto split: list.splits)
    have "t = take 4 t @ drop 4 t" by simp
    with d have "t = (take 4 t @ [c]) @ r" by simp
    moreover have l: "length ''WITH'' = 4" by simp
    from b have "map lower (take (length ''WITH'') t) = map lower ''WITH''"
      by (simp only: begins_ci_def)
    then have "map lower (take 4 t) = map lower ''WITH''" unfolding l .
    ultimately show ?thesis using d(2) by blast
  qed
  then obtain w q where "t = w @ q" and w: "map lower w = map lower ''SELECT'' \<or>
         (\<exists>u c. w = u @ [c] \<and> map lower u = map lower ''WITH'' \<and> isspace c)"
    by blast
  then have "s = (ws @ w) @ q" by (simp add: s)
  moreover have "ws @ w \<in> lang READ_ONLY_RE"
    unfolding in_READ_ONLY_RE using ws w by blast
  ultimately show "re_match READ_ONLY_RE s" unfolding re_match_iff by blast
qed

section \<open>The result object and the read transaction\<close>






section \<open>The tests of the repository, run on the model\<close>

lemma test_select:
  "fst (serve (test_app 1000) (Some API_KEY) bookstore
      (client_post ''/fenrir/query'' (JObject [(''sql'', JString ''SELECT name FROM author'')]))
      (seeded [''Tolkien'']))
   = jsonify 200 (QueryJson \<lparr>q_columns = [''name''], q_rows = [[TextV ''Tolkien'']], q_row_count = 1,
        q_truncated = False, q_row_limit = 1000\<rparr>)"
  by code_simp

lemma test_returns_app_info:
  "fst (serve (test_app 1000) (Some API_KEY) bookstore (client_get ''/fenrir/'') (seeded [''Tolkien'']))
   = jsonify 200 (IndexJson ''Bookstore''
       (Some (''# Bookstore'' @ [CHR 0x0A, CHR 0x0A] @ ''A tiny bookstore app.'' @ [CHR 0x0A]))
       [(''author'', Some (IntV 1)), (''book'', Some (IntV 1))])"
  by code_simp

section \<open>Routing and the calls of the read endpoint\<close>

subsection \<open>Routing\<close>

lemma route_index: "route GET ''/fenrir/'' = Matched Index_view"
  by (simp add: route_def url_map_def)

lemma route_schema: "route GET ''/fenrir/schema'' = Matched Schema_view"
  by (simp add: route_def url_map_def)


lemma route_execute: "route m ''/fenrir/execute'' = No_rule"
  by (simp add: route_def url_map_def)

lemma fenrir_prefix_skipped:
  "startswith p ''/fenrir/'' \<Longrightarrow> basic_auth_check dbg cfg k (req\<lparr>path := p\<rparr>) ep = None"
  by (simp add: basic_auth_check_def skip_list_def)

lemma hook_passes_fenrir:
  assumes "startswith (path req) ''/fenrir/''"
  shows "(case secured a of None \<Rightarrow> None
          | Some cfg \<Rightarrow> basic_auth_check (debug a) cfg k req ep) = (None :: 'v response option)"
  using assms by (simp add: basic_auth_check_def skip_list_def split: option.splits)


lemma serve_index:
  assumes "req_method req = GET" "path req = ''/fenrir/''"
  shows "serve a k db req e = require_auth (debug a) k req (index a db) e"
proof -
  have sw: "startswith (path req) ''/fenrir/''" using assms by (simp add: startswith_def)
  show ?thesis
    using assms by (simp add: hook_passes_fenrir [OF sw] serve_def route_index run_view_def Let_def)
qed

lemma serve_schema:
  assumes "req_method req = GET" "path req = ''/fenrir/schema''"
  shows "serve a k db req e = require_auth (debug a) k req (schema db) e"
proof -
  have sw: "startswith (path req) ''/fenrir/''" using assms by (simp add: startswith_def)
  show ?thesis
    using assms by (simp add: hook_passes_fenrir [OF sw] serve_def route_schema run_view_def Let_def)
qed

lemma serve_execute:
  assumes "path req = ''/fenrir/execute''"
  shows "serve a k db req e = (not_found, e)"
proof -
  have sw: "startswith (path req) ''/fenrir/''" using assms by (simp add: startswith_def)
  show ?thesis
    using assms by (simp add: hook_passes_fenrir [OF sw] serve_def route_execute Let_def)
qed

subsection \<open>The read transaction\<close>




section \<open>The read endpoint\<close>




lemma execute_engine:
  "snd (snd (execute db sql (c, e))) = logged (Execute sql) e"
  by (simp add: execute_def split: prod.splits)

lemma count_tables_engine:
  "durable (snd (snd (count_tables db ts (c, e)))) = durable e \<and>
   refuses (snd (snd (count_tables db ts (c, e)))) = refuses e \<and>
   checked_out (snd (snd (count_tables db ts (c, e)))) = checked_out e"
proof (induction ts arbitrary: c e)
  case Nil
  show ?case by simp
next
  case (Cons t ts)
  define sql where "sql = ''SELECT COUNT(*) FROM '' @ dquote @ t @ dquote"
  obtain out c1 e1 where ex: "execute db sql (c, e) = (out, c1, e1)"
    by (cases "execute db sql (c, e)") auto
  from execute_engine [of db sql c e] ex have e1: "e1 = logged (Execute sql) e" by simp
  have step: "count_tables db (t # ts) (c, e) =
     (case out of
        Inl exc \<Rightarrow> (Inl exc, c1, e1)
      | Inr cur \<Rightarrow>
          (case scalar cur of
             Inl exc \<Rightarrow> (Inl exc, c1, e1)
           | Inr count \<Rightarrow>
               (case count_tables db ts (c1, e1) of
                  (Inl exc, ce2) \<Rightarrow> (Inl exc, ce2)
                | (Inr tables, ce2) \<Rightarrow> (Inr ((t, count) # tables), ce2))))"
    using ex by (simp add: sql_def)
  have same: "durable e1 = durable e \<and> refuses e1 = refuses e \<and> checked_out e1 = checked_out e"
    by (simp add: e1 logged_def)
  show ?case
    unfolding step using same Cons.IH [of c1 e1]
    by (auto split: sum.splits prod.splits)
qed

lemma index_body:
  "(\<exists>n md ts. body (fst (index a db e)) = IndexJson n md ts) \<or>
   (\<exists>exc. body (fst (index a db e)) = InternalServerErrorPage exc)"
  by (simp add: index_def Let_def connect_def jsonify_def internal_server_error_def
      split: option.splits prod.splits sum.splits)

lemma schema_body:
  "(\<exists>ts. body (fst (schema db e)) = SchemaJson ts) \<or>
   (\<exists>exc. body (fst (schema db e)) = InternalServerErrorPage exc)"
  by (simp add: schema_def Let_def jsonify_def internal_server_error_def split: option.splits)




section \<open>The classifier and the access checks\<close>

text \<open>
  Claim C3. The classification that the pattern \<open>_READ_ONLY_RE\<close> computes is the one the
  specification words: a statement is \<open>READ_ONLY\<close> exactly when, after its leading
  whitespace, it begins without regard to case with \<open>SELECT\<close>, or with \<open>WITH\<close> followed
  by a whitespace character; every other statement is \<open>MUTATING\<close>. The classification is
  a function of the text alone, decided at its start.
\<close>

theorem classify_matches_spec: "classify S = spec_classify S"
  by (simp add: classify_def spec_classify_def re_match_READ_ONLY_RE)

text \<open>
  The classification on statements of both kinds; \<open>WITHOUT\<close> and a statement behind a
  comment are not read-only.
\<close>

theorem classify_matches_spec_witness:
  "classify ''  select 1'' = READ_ONLY \<and> classify (''with'' @ [CHR 0x0A] @ ''t as (select 1) select * from t'') = READ_ONLY \<and>
   classify ''WITHOUT'' = MUTATING \<and> classify ''INSERT INTO author (name) VALUES ('nope')'' = MUTATING \<and>
   spec_classify ''-- c'' = MUTATING"
proof -
  have "spec_classify ''  select 1'' = READ_ONLY" by code_simp
  moreover have "spec_classify (''with'' @ [CHR 0x0A] @ ''t as (select 1) select * from t'') = READ_ONLY"
    by code_simp
  moreover have "spec_classify ''WITHOUT'' = MUTATING" by code_simp
  moreover have "spec_classify ''INSERT INTO author (name) VALUES ('nope')'' = MUTATING" by code_simp
  moreover have "spec_classify ''-- c'' = MUTATING" by code_simp
  ultimately show ?thesis by (simp only: classify_matches_spec)
qed

text \<open>
  Claim C10. The \<open>before_request\<close> hook of \<open>secure_app\<close> lets a request through without
  looking at any credential when its path is \<open>/\<close>, or starts with \<open>/fenrir/\<close>,
  \<open>/static/\<close> or a configured skip prefix, or when its endpoint is \<open>static\<close>, whether
  \<open>FENRIR_API_KEY\<close> is configured or not.
\<close>

theorem basic_auth_check_exempt:
  assumes "path req = ''/'' \<or> startswith (path req) ''/fenrir/'' \<or>
           startswith (path req) ''/static/'' \<or>
           (\<exists>p \<in> set (case skip_paths cfg of None \<Rightarrow> [] | Some ps \<Rightarrow> ps). startswith (path req) p) \<or>
           endpoint = Some ''static''"
  shows "basic_auth_check dbg cfg api_key req endpoint = None"
  using assms by (auto simp: basic_auth_check_def skip_list_def list_ex_iff)

text \<open>
  Claim C9. With \<open>app.debug\<close> set, two requests that differ only in their credentials
  (headers, basic-auth password) get the same response and leave the same engine state,
  whatever \<open>FENRIR_API_KEY\<close> is in either run: the \<open>before_request\<close> hook lets every
  request through and \<open>_require_auth\<close> calls the view directly.
\<close>

theorem debug_bypasses_auth:
  assumes "debug a" and "req_method r1 = req_method r2" and "path r1 = path r2"
    and "json_body r1 = json_body r2"
  shows "serve a k1 db r1 e = serve a k2 db r2 e \<and>
         basic_auth_check (debug a) cfg k1 r1 ep = None \<and>
         require_auth (debug a) k1 r1 f e = f e"
proof -
  have q: "\<And>n. query db n r1 = query db n r2"
    using assms(4) by (simp add: query_def body_sql_def fun_eq_iff)
  have v: "\<And>v. run_view a db v r1 = run_view a db v r2"
    by (simp add: run_view_def q split: view.splits)
  have "serve a k1 db r1 e = serve a k2 db r2 e"
    using assms(1,2,3)
    by (simp add: serve_def basic_auth_check_def require_auth_def v Let_def
        split: option.splits routing.splits)
  then show ?thesis using assms(1) by (simp add: basic_auth_check_def require_auth_def)
qed



section \<open>Schema introspection\<close>

lemma execute_result:
  "fst (execute db sql (c, e1)) = fst (execute db sql (c, e2)) \<and>
   fst (snd (execute db sql (c, e1))) = fst (snd (execute db sql (c, e2)))"
  by (simp add: execute_def split: prod.splits)

lemma count_tables_step:
  assumes "execute db (''SELECT COUNT(*) FROM '' @ dquote @ t @ dquote) (c, e) = (out, c1, e1)"
  shows "count_tables db (t # ts) (c, e) =
     (case out of
        Inl exc \<Rightarrow> (Inl exc, c1, e1)
      | Inr cur \<Rightarrow>
          (case scalar cur of
             Inl exc \<Rightarrow> (Inl exc, c1, e1)
           | Inr count \<Rightarrow>
               (case count_tables db ts (c1, e1) of
                  (Inl exc, ce2) \<Rightarrow> (Inl exc, ce2)
                | (Inr tables, ce2) \<Rightarrow> (Inr ((t, count) # tables), ce2))))"
  using assms by simp

lemma count_tables_result:
  "fst (count_tables db ts (c, e1)) = fst (count_tables db ts (c, e2))"
proof (induction ts arbitrary: c e1 e2)
  case Nil
  show ?case by simp
next
  case (Cons t ts)
  define sql where "sql = ''SELECT COUNT(*) FROM '' @ dquote @ t @ dquote"
  obtain out c1 f1 where ex1: "execute db sql (c, e1) = (out, c1, f1)"
    by (cases "execute db sql (c, e1)") auto
  obtain out' c1' f2 where ex2: "execute db sql (c, e2) = (out', c1', f2)"
    by (cases "execute db sql (c, e2)") auto
  from execute_result [of db sql c e1 e2] ex1 ex2 have same: "out' = out" "c1' = c1" by simp_all
  have s1: "fst (count_tables db (t # ts) (c, e1)) =
     (case out of
        Inl exc \<Rightarrow> Inl exc
      | Inr cur \<Rightarrow>
          (case scalar cur of
             Inl exc \<Rightarrow> Inl exc
           | Inr count \<Rightarrow>
               (case fst (count_tables db ts (c1, f1)) of
                  Inl exc \<Rightarrow> Inl exc
                | Inr tables \<Rightarrow> Inr ((t, count) # tables))))"
    unfolding count_tables_step [OF ex1 [unfolded sql_def]]
    by (simp split: sum.splits prod.splits)
  have s2: "fst (count_tables db (t # ts) (c, e2)) =
     (case out of
        Inl exc \<Rightarrow> Inl exc
      | Inr cur \<Rightarrow>
          (case scalar cur of
             Inl exc \<Rightarrow> Inl exc
           | Inr count \<Rightarrow>
               (case fst (count_tables db ts (c1, f2)) of
                  Inl exc \<Rightarrow> Inl exc
                | Inr tables \<Rightarrow> Inr ((t, count) # tables))))"
    unfolding count_tables_step [OF ex2 [unfolded sql_def same]]
    by (simp split: sum.splits prod.splits)
  show ?case unfolding s1 s2 Cons.IH [of c1 f1 f2] by (rule refl)
qed

lemma count_tables_names:
  "count_tables db ts ce = (Inr tables, ce') \<Longrightarrow> map fst tables = ts"
proof (induction ts arbitrary: ce ce' tables)
  case Nil
  then show ?case by simp
next
  case (Cons t ts)
  obtain c e where ce: "ce = (c, e)" by (cases ce) auto
  obtain out c1 e1 where ex: "execute db (''SELECT COUNT(*) FROM '' @ dquote @ t @ dquote) (c, e) = (out, c1, e1)"
    by (cases "execute db (''SELECT COUNT(*) FROM '' @ dquote @ t @ dquote) (c, e)") auto
  from Cons.prems show ?case
    unfolding ce count_tables_step [OF ex]
    by (auto split: sum.splits prod.splits dest: Cons.IH)
qed

lemma describe_tables_keys_sorted:
  "sorted (map fst acc @ ts) \<Longrightarrow> distinct (map fst acc) \<Longrightarrow>
   sorted (map fst (describe_tables insp ts acc)) \<and> distinct (map fst (describe_tables insp ts acc))"
proof (induction ts arbitrary: acc)
  case Nil
  then show ?case by simp
next
  case (Cons t ts)
  let ?acc = "AList.update t (describe_table insp t) acc"
  have keys: "map fst ?acc = (if t \<in> set (map fst acc) then map fst acc else map fst acc @ [t])"
    by (rule update_keys)
  have "sorted (map fst ?acc @ ts) \<and> distinct (map fst ?acc)"
    using Cons.prems unfolding keys by (auto simp: sorted_append)
  with Cons.IH [of ?acc] show ?case by simp
qed

lemma index_response:
  assumes "durable e2 = durable e1" and "refuses e2 = refuses e1"
  shows "fst (index a db e2) = fst (index a db e1)"
proof (cases "refuses e1")
  case (Some msg)
  with assms show ?thesis by (simp add: index_def connect_def Let_def)
next
  case None
  let ?c = "\<lparr>work = durable e1, in_transaction = False\<rparr>"
  let ?ts = "sort (get_table_names (reflect db (durable e1)))"
  have i: "\<And>e. refuses e = None \<Longrightarrow> durable e = durable e1 \<Longrightarrow>
     fst (index a db e) =
       (case fst (count_tables db ?ts (?c, logged Reflect (logged Connect (e\<lparr>checked_out := Suc (checked_out e)\<rparr>)))) of
          Inl exc \<Rightarrow> internal_server_error exc
        | Inr tables \<Rightarrow> jsonify 200 (IndexJson (extract_app_name (read_fenrir_md (fenrir_md_files a)) (name a))
             (read_fenrir_md (fenrir_md_files a)) tables))"
    by (simp add: index_def connect_def Let_def logged_def split: prod.splits sum.splits)
  have ct: "fst (count_tables db ?ts (?c, logged Reflect (logged Connect (e2\<lparr>checked_out := Suc (checked_out e2)\<rparr>)))) =
            fst (count_tables db ?ts (?c, logged Reflect (logged Connect (e1\<lparr>checked_out := Suc (checked_out e1)\<rparr>))))"
    by (rule count_tables_result)
  have "fst (index a db e2) =
       (case fst (count_tables db ?ts (?c, logged Reflect (logged Connect (e2\<lparr>checked_out := Suc (checked_out e2)\<rparr>)))) of
          Inl exc \<Rightarrow> internal_server_error exc
        | Inr tables \<Rightarrow> jsonify 200 (IndexJson (extract_app_name (read_fenrir_md (fenrir_md_files a)) (name a))
             (read_fenrir_md (fenrir_md_files a)) tables))"
    using assms None by (intro i) simp_all
  moreover have "fst (index a db e1) =
       (case fst (count_tables db ?ts (?c, logged Reflect (logged Connect (e1\<lparr>checked_out := Suc (checked_out e1)\<rparr>)))) of
          Inl exc \<Rightarrow> internal_server_error exc
        | Inr tables \<Rightarrow> jsonify 200 (IndexJson (extract_app_name (read_fenrir_md (fenrir_md_files a)) (name a))
             (read_fenrir_md (fenrir_md_files a)) tables))"
    using None by (intro i) simp_all
  ultimately show ?thesis by (simp only: ct)
qed

lemma index_engine:
  "durable (snd (index a db e)) = durable e \<and> refuses (snd (index a db e)) = refuses e"
proof (cases "refuses e")
  case (Some msg)
  then show ?thesis by (simp add: index_def connect_def Let_def logged_def)
next
  case None
  let ?c = "\<lparr>work = durable e, in_transaction = False\<rparr>"
  let ?e = "logged Reflect (logged Connect (e\<lparr>checked_out := Suc (checked_out e)\<rparr>))"
  let ?ts = "sort (get_table_names (reflect db (durable e)))"
  obtain r c2 e2 where ct: "count_tables db ?ts (?c, ?e) = (r, c2, e2)"
    by (cases "count_tables db ?ts (?c, ?e)") auto
  from count_tables_engine [of db ?ts ?c ?e] ct
  have "durable e2 = durable e \<and> refuses e2 = refuses e" by (simp add: logged_def)
  then have "durable (close (c2, e2)) = durable e \<and> refuses (close (c2, e2)) = refuses e"
    by (simp add: close_def logged_def Let_def)
  then show ?thesis
    using None ct by (simp add: index_def connect_def Let_def logged_def split: sum.splits)
qed

lemma index_sorted:
  assumes "body (fst (index a db e)) = IndexJson n md tables"
  shows "sorted (map fst tables)"
proof (cases "refuses e")
  case (Some msg)
  with assms show ?thesis by (simp add: index_def connect_def Let_def internal_server_error_def)
next
  case None
  let ?c = "\<lparr>work = durable e, in_transaction = False\<rparr>"
  let ?e = "logged Reflect (logged Connect (e\<lparr>checked_out := Suc (checked_out e)\<rparr>))"
  let ?ts = "sort (get_table_names (reflect db (durable e)))"
  obtain r ce2 where ct: "count_tables db ?ts (?c, ?e) = (r, ce2)"
    by (cases "count_tables db ?ts (?c, ?e)") auto
  from assms None ct have "r = Inr tables"
    by (simp add: index_def connect_def Let_def logged_def internal_server_error_def jsonify_def
        split: sum.splits)
  with ct have "count_tables db ?ts (?c, ?e) = (Inr tables, ce2)" by simp
  then have "map fst tables = ?ts" by (rule count_tables_names)
  then show ?thesis by simp
qed

lemma schema_response:
  assumes "durable e2 = durable e1" and "refuses e2 = refuses e1"
  shows "fst (schema db e2) = fst (schema db e1)"
  using assms by (simp add: schema_def Let_def split: option.splits)

lemma schema_engine:
  "durable (snd (schema db e)) = durable e \<and> refuses (snd (schema db e)) = refuses e"
  by (simp add: schema_def Let_def logged_def split: option.splits)

lemma schema_sorted:
  assumes "body (fst (schema db e)) = SchemaJson tables"
  shows "sorted (map fst tables) \<and> distinct (map fst tables)"
proof -
  have "sorted (map fst ([] :: (string \<times> table_json) list) @ sort (get_table_names (reflect db (durable e))))"
    by simp
  from describe_tables_keys_sorted [OF this, of "reflect db (durable e)"]
  show ?thesis
    using assms
    by (auto simp: schema_def Let_def jsonify_def internal_server_error_def split: option.splits)
qed

lemma require_auth_response:
  assumes "fst (f e2) = fst (f e1)"
  shows "fst (require_auth dbg k req f e2) = fst (require_auth dbg k req f e1)"
  using assms by (simp add: require_auth_def Let_def)

lemma require_auth_preserves:
  assumes "durable (snd (f e)) = durable e \<and> refuses (snd (f e)) = refuses e"
  shows "durable (snd (require_auth dbg k req f e)) = durable e \<and>
         refuses (snd (require_auth dbg k req f e)) = refuses e"
  using assms by (simp add: require_auth_def Let_def)

lemma require_auth_response_body:
  assumes "body (fst (require_auth dbg k req f e)) = b" and "\<forall>msg. b \<noteq> ErrorJson msg"
  shows "body (fst (f e)) = b"
  using assms by (auto simp: require_auth_def Let_def jsonify_def split: if_splits)

text \<open>
  Claim C8. The table list of \<open>GET /fenrir/\<close> and the table dictionary of
  \<open>GET /fenrir/schema\<close> are in ascending order of the table names, and the whole response
  is a function of the committed database state: a second call right after the first, or
  any call on an engine with the same committed state, gets the identical response.
\<close>

theorem schema_introspection_deterministic:
  assumes "req_method req = GET"
    and "path req = ''/fenrir/'' \<or> path req = ''/fenrir/schema''"
  shows "(\<forall>n md tables. body (fst (serve a k db req e)) = IndexJson n md tables \<longrightarrow>
            sorted (map fst tables)) \<and>
         (\<forall>tables. body (fst (serve a k db req e)) = SchemaJson tables \<longrightarrow>
            sorted (map fst tables) \<and> distinct (map fst tables)) \<and>
         fst (serve a k db req (snd (serve a k db req e))) = fst (serve a k db req e) \<and>
         (\<forall>e'. durable e' = durable e \<and> refuses e' = refuses e \<longrightarrow>
            fst (serve a k db req e') = fst (serve a k db req e))"
proof -
  from assms(2) show ?thesis
  proof
    assume p: "path req = ''/fenrir/''"
    have s: "\<And>e. serve a k db req e = require_auth (debug a) k req (index a db) e"
      using assms(1) p by (rule serve_index)
    have pres: "durable (snd (serve a k db req e)) = durable e \<and>
                refuses (snd (serve a k db req e)) = refuses e"
      unfolding s by (rule require_auth_preserves) (rule index_engine)
    have cong: "fst (serve a k db req e') = fst (serve a k db req e)"
      if "durable e' = durable e \<and> refuses e' = refuses e" for e'
    proof -
      from that have "fst (index a db e') = fst (index a db e)"
        by (intro index_response) simp_all
      then show ?thesis unfolding s by (rule require_auth_response)
    qed
    have sorted_idx: "sorted (map fst tables)"
      if "body (fst (serve a k db req e)) = IndexJson n md tables" for n md tables
    proof -
      from that have "body (fst (require_auth (debug a) k req (index a db) e)) = IndexJson n md tables"
        by (simp only: s)
      then have "body (fst (index a db e)) = IndexJson n md tables"
        by (rule require_auth_response_body) simp
      then show ?thesis by (rule index_sorted)
    qed
    have no_schema: "body (fst (serve a k db req e)) \<noteq> SchemaJson tables" for tables
    proof
      assume "body (fst (serve a k db req e)) = SchemaJson tables"
      then have "body (fst (require_auth (debug a) k req (index a db) e)) = SchemaJson tables"
        by (simp only: s)
      then have "body (fst (index a db e)) = SchemaJson tables"
        by (rule require_auth_response_body) simp
      with index_body [of a db e] show False by auto
    qed
    have again: "fst (serve a k db req (snd (serve a k db req e))) = fst (serve a k db req e)"
      using pres by (rule cong)
    have A: "\<forall>n md tables. body (fst (serve a k db req e)) = IndexJson n md tables \<longrightarrow>
            sorted (map fst tables)"
      using sorted_idx by blast
    have B: "\<forall>tables. body (fst (serve a k db req e)) = SchemaJson tables \<longrightarrow>
            sorted (map fst tables) \<and> distinct (map fst tables)"
      using no_schema by blast
    have D: "\<forall>e'. durable e' = durable e \<and> refuses e' = refuses e \<longrightarrow>
            fst (serve a k db req e') = fst (serve a k db req e)"
      using cong by blast
    from A B again D show ?thesis by (intro conjI)
  next
    assume p: "path req = ''/fenrir/schema''"
    have s: "\<And>e. serve a k db req e = require_auth (debug a) k req (schema db) e"
      using assms(1) p by (rule serve_schema)
    have pres: "durable (snd (serve a k db req e)) = durable e \<and>
                refuses (snd (serve a k db req e)) = refuses e"
      unfolding s by (rule require_auth_preserves) (rule schema_engine)
    have cong: "fst (serve a k db req e') = fst (serve a k db req e)"
      if "durable e' = durable e \<and> refuses e' = refuses e" for e'
    proof -
      from that have "fst (schema db e') = fst (schema db e)"
        by (intro schema_response) simp_all
      then show ?thesis unfolding s by (rule require_auth_response)
    qed
    have sorted_sch: "sorted (map fst tables) \<and> distinct (map fst tables)"
      if "body (fst (serve a k db req e)) = SchemaJson tables" for tables
    proof -
      from that have "body (fst (require_auth (debug a) k req (schema db) e)) = SchemaJson tables"
        by (simp only: s)
      then have "body (fst (schema db e)) = SchemaJson tables"
        by (rule require_auth_response_body) simp
      then show ?thesis by (rule schema_sorted)
    qed
    have no_index: "body (fst (serve a k db req e)) \<noteq> IndexJson n md tables" for n md tables
    proof
      assume "body (fst (serve a k db req e)) = IndexJson n md tables"
      then have "body (fst (require_auth (debug a) k req (schema db) e)) = IndexJson n md tables"
        by (simp only: s)
      then have "body (fst (schema db e)) = IndexJson n md tables"
        by (rule require_auth_response_body) simp
      with schema_body [of db e] show False by auto
    qed
    have again: "fst (serve a k db req (snd (serve a k db req e))) = fst (serve a k db req e)"
      using pres by (rule cong)
    have A: "\<forall>n md tables. body (fst (serve a k db req e)) = IndexJson n md tables \<longrightarrow>
            sorted (map fst tables)"
      using no_index by blast
    have B: "\<forall>tables. body (fst (serve a k db req e)) = SchemaJson tables \<longrightarrow>
            sorted (map fst tables) \<and> distinct (map fst tables)"
      using sorted_sch by blast
    have D: "\<forall>e'. durable e' = durable e \<and> refuses e' = refuses e \<longrightarrow>
            fst (serve a k db req e') = fst (serve a k db req e)"
      using cong by blast
    from A B again D show ?thesis by (intro conjI)
  qed
qed

section \<open>Schema introspection on the test application\<close>

text \<open>
  The inspector reports \<open>book\<close> before \<open>author\<close>; both endpoints answer with \<open>author\<close>
  first, twice in a row.
\<close>

theorem schema_introspection_deterministic_witness:
  "get_table_names (reflect bookstore [''Tolkien'']) = [''book'', ''author''] \<and>
   body (fst (serve (test_app 1000) (Some API_KEY) bookstore (client_get ''/fenrir/'')
      (seeded [''Tolkien''])))
     = IndexJson ''Bookstore''
         (Some (''# Bookstore'' @ [CHR 0x0A, CHR 0x0A] @ ''A tiny bookstore app.'' @ [CHR 0x0A]))
         [(''author'', Some (IntV 1)), (''book'', Some (IntV 1))] \<and>
   (case body (fst (serve (test_app 1000) (Some API_KEY) bookstore (client_get ''/fenrir/schema'')
      (seeded [''Tolkien'']))) of
      SchemaJson tables \<Rightarrow> map fst tables
    | _ \<Rightarrow> []) = [''author'', ''book''] \<and>
   fst (serve (test_app 1000) (Some API_KEY) bookstore (client_get ''/fenrir/'')
      (snd (serve (test_app 1000) (Some API_KEY) bookstore (client_get ''/fenrir/'')
         (seeded [''Tolkien'']))))
     = fst (serve (test_app 1000) (Some API_KEY) bookstore (client_get ''/fenrir/'')
         (seeded [''Tolkien'']))"
proof -
  have m: "req_method (client_get ''/fenrir/'') = GET" by (simp add: client_get_def)
  have p: "path (client_get ''/fenrir/'') = ''/fenrir/'' \<or>
           path (client_get ''/fenrir/'') = ''/fenrir/schema''"
    by (simp add: client_get_def)
  have names: "get_table_names (reflect bookstore [''Tolkien'']) = [''book'', ''author'']"
    by (simp add: bookstore_def bookstore_catalog_def)
  have idx: "body (fst (serve (test_app 1000) (Some API_KEY) bookstore (client_get ''/fenrir/'')
      (seeded [''Tolkien''])))
     = IndexJson ''Bookstore''
         (Some (''# Bookstore'' @ [CHR 0x0A, CHR 0x0A] @ ''A tiny bookstore app.'' @ [CHR 0x0A]))
         [(''author'', Some (IntV 1)), (''book'', Some (IntV 1))]"
    by code_simp
  have sch: "(case body (fst (serve (test_app 1000) (Some API_KEY) bookstore (client_get ''/fenrir/schema'')
      (seeded [''Tolkien'']))) of
      SchemaJson tables \<Rightarrow> map fst tables
    | _ \<Rightarrow> []) = [''author'', ''book'']"
    by code_simp
  have again: "fst (serve (test_app 1000) (Some API_KEY) bookstore (client_get ''/fenrir/'')
      (snd (serve (test_app 1000) (Some API_KEY) bookstore (client_get ''/fenrir/'')
         (seeded [''Tolkien'']))))
     = fst (serve (test_app 1000) (Some API_KEY) bookstore (client_get ''/fenrir/'')
         (seeded [''Tolkien'']))"
    by (rule schema_introspection_deterministic
        [OF m p, THEN conjunct2, THEN conjunct2, THEN conjunct1])
  from names idx sch again show ?thesis by (intro conjI)
qed

section \<open>The properties at concrete requests\<close>




text \<open>
  Exempt paths with no key configured; \<open>/admin\<close>, which is not exempt, is answered 503.
\<close>

theorem basic_auth_check_exempt_witness:
  "basic_auth_check False \<lparr>skip_paths = Some [''/health''], api_key_header = None\<rparr> None
     (client_get ''/health/live'') None = (None :: sqlval response option) \<and>
   basic_auth_check False \<lparr>skip_paths = None, api_key_header = None\<rparr> None
     (client_get ''/'') None = (None :: sqlval response option) \<and>
   basic_auth_check False \<lparr>skip_paths = None, api_key_header = None\<rparr> None
     (client_get ''/fenrir/schema'') (Some ''fenrir.schema'') = (None :: sqlval response option) \<and>
   basic_auth_check False \<lparr>skip_paths = None, api_key_header = None\<rparr> None
     (client_get ''/static/app.css'') None = (None :: sqlval response option) \<and>
   basic_auth_check False \<lparr>skip_paths = None, api_key_header = None\<rparr> None
     (client_get ''/assets/app.css'') (Some ''static'') = (None :: sqlval response option) \<and>
   map_option status (basic_auth_check False \<lparr>skip_paths = None, api_key_header = None\<rparr> None
     (client_get ''/admin'') None :: sqlval response option) = Some 503"
proof -
  have h: "path (client_get ''/health/live'') = ''/'' \<or>
      startswith (path (client_get ''/health/live'')) ''/fenrir/'' \<or>
      startswith (path (client_get ''/health/live'')) ''/static/'' \<or>
      (\<exists>p \<in> set (case skip_paths \<lparr>skip_paths = Some [''/health''], api_key_header = None\<rparr> of
                     None \<Rightarrow> [] | Some ps \<Rightarrow> ps).
         startswith (path (client_get ''/health/live'')) p) \<or>
      (None :: string option) = Some ''static''"
    by (simp add: client_get_def startswith_def)
  have a: "basic_auth_check False \<lparr>skip_paths = Some [''/health''], api_key_header = None\<rparr> None
     (client_get ''/health/live'') None = (None :: sqlval response option)"
    by (rule basic_auth_check_exempt [OF h])
  have b: "basic_auth_check False \<lparr>skip_paths = None, api_key_header = None\<rparr> None
     (client_get ''/'') None = (None :: sqlval response option)"
    by code_simp
  have c: "basic_auth_check False \<lparr>skip_paths = None, api_key_header = None\<rparr> None
     (client_get ''/fenrir/schema'') (Some ''fenrir.schema'') = (None :: sqlval response option)"
    by code_simp
  have d: "basic_auth_check False \<lparr>skip_paths = None, api_key_header = None\<rparr> None
     (client_get ''/static/app.css'') None = (None :: sqlval response option)"
    by code_simp
  have e: "basic_auth_check False \<lparr>skip_paths = None, api_key_header = None\<rparr> None
     (client_get ''/assets/app.css'') (Some ''static'') = (None :: sqlval response option)"
    by code_simp
  have f: "map_option status (basic_auth_check False \<lparr>skip_paths = None, api_key_header = None\<rparr> None
     (client_get ''/admin'') None :: sqlval response option) = Some 503"
    by code_simp
  from a b c d e f show ?thesis by (intro conjI)
qed

text \<open>
  In debug mode a query with the right bearer token and the key configured, and the same
  query with no header, a wrong password and no key configured, are both answered 200
  with the same result.
\<close>

theorem debug_bypasses_auth_witness:
  "serve ((test_app 1000)\<lparr>debug := True, secured := Some \<lparr>skip_paths = None, api_key_header = None\<rparr>\<rparr>)
      (Some API_KEY) bookstore
      (client_post ''/fenrir/query'' (JObject [(''sql'', JString ''SELECT name FROM author'')]))
      (seeded [''Tolkien''])
   = serve ((test_app 1000)\<lparr>debug := True, secured := Some \<lparr>skip_paths = None, api_key_header = None\<rparr>\<rparr>)
      None bookstore
      ((client_post ''/fenrir/query'' (JObject [(''sql'', JString ''SELECT name FROM author'')]))\<lparr>headers := (\<lambda>h. None), basic_password := Some ''guess''\<rparr>)
      (seeded [''Tolkien'']) \<and>
   status (fst (serve ((test_app 1000)\<lparr>debug := True, secured := Some \<lparr>skip_paths = None, api_key_header = None\<rparr>\<rparr>)
      None bookstore
      ((client_post ''/fenrir/query'' (JObject [(''sql'', JString ''SELECT name FROM author'')]))\<lparr>headers := (\<lambda>h. None), basic_password := Some ''guess''\<rparr>)
      (seeded [''Tolkien'']))) = 200"
proof -
  let ?a = "(test_app 1000)\<lparr>debug := True, secured := Some \<lparr>skip_paths = None, api_key_header = None\<rparr>\<rparr>"
  let ?r1 = "client_post ''/fenrir/query'' (JObject [(''sql'', JString ''SELECT name FROM author'')])"
  let ?r2 = "?r1\<lparr>headers := (\<lambda>h. None), basic_password := Some ''guess''\<rparr>"
  have d: "debug ?a" by (simp add: test_app_def)
  have m: "req_method ?r1 = req_method ?r2" by simp
  have p: "path ?r1 = path ?r2" by simp
  have j: "json_body ?r1 = json_body ?r2" by simp
  have s: "status (fst (serve ?a None bookstore ?r2 (seeded [''Tolkien'']))) = 200"
    by code_simp
  have eq: "serve ?a (Some API_KEY) bookstore ?r1 (seeded [''Tolkien'']) =
            serve ?a None bookstore ?r2 (seeded [''Tolkien''])"
    by (rule debug_bypasses_auth [OF d m p j, THEN conjunct1])
  from eq s show ?thesis by (intro conjI)
qed


section \<open>Rejected requests and the write endpoint\<close>


subsection \<open>What the read endpoint refuses\<close>

lemma body_sql_missing:
  assumes "json_body req = None \<or> json_body req = Some (JObject kvs) \<and> map_of kvs ''sql'' = None"
  shows "body_sql req = Inr []"
  using assms by (auto simp: body_sql_def)

lemma query_missing_sql:
  assumes "body_sql req = Inr raw" and "strip raw = []"
  shows "query db n req e = (jsonify 400 (ErrorJson ''missing 'sql' field''), e)"
  using assms by (simp add: query_def)

lemma query_rejects_mutating:
  assumes "body_sql req = Inr raw" and "classify (strip raw) = MUTATING"
  shows "status (fst (query db n req e)) = 400 \<and> snd (query db n req e) = e"
  using assms by (simp add: query_def classify_def jsonify_def Let_def split: if_splits)

lemma test_rejects_insert:
  "serve (test_app 1000) (Some API_KEY) bookstore
     (client_post ''/fenrir/query''
        (JObject [(''sql'', JString ''INSERT INTO author (name) VALUES ('nope')'')]))
     (seeded [''Tolkien''])
   = (jsonify 400 (ErrorJson ''only SELECT (or WITH ... SELECT) allowed''), seeded [''Tolkien''])"
  by code_simp

lemma test_query_missing_sql:
  "serve (test_app 1000) (Some API_KEY) bookstore
     (client_post ''/fenrir/query'' (JObject [])) (seeded [''Tolkien''])
   = (jsonify 400 (ErrorJson ''missing 'sql' field''), seeded [''Tolkien''])"
  by code_simp

subsection \<open>The write endpoint\<close>

text \<open>
  Claim C1. \<open>create_fenrir_bp\<close> registers no rule for \<open>/fenrir/execute\<close>: the
  \<open>INSERT\<close> of \<open>TestExecute.test_insert\<close>, posted there, is answered 404 by the
  application, whatever the key and the database, and nothing is called on the engine.
  The claim and the test expect 200 with \<open>affected_rows = 1\<close>.
\<close>

theorem execute_insert_not_found:
  "status (fst (serve a k db
      (client_post ''/fenrir/execute''
         (JObject [(''sql'', JString ''INSERT INTO author (name) VALUES ('Pratchett')'')])) e)) = 404 \<and>
   snd (serve a k db
      (client_post ''/fenrir/execute''
         (JObject [(''sql'', JString ''INSERT INTO author (name) VALUES ('Pratchett')'')])) e) = e"
proof -
  have "path (client_post ''/fenrir/execute''
         (JObject [(''sql'', JString ''INSERT INTO author (name) VALUES ('Pratchett')'')])) = ''/fenrir/execute''"
    by (simp add: client_post_def)
  then show ?thesis by (simp add: serve_execute not_found_def)
qed

text \<open>
  Claim C5. A \<open>SELECT\<close> posted to \<open>/fenrir/execute\<close> (\<open>TestExecute.test_rejects_select\<close>)
  is answered 404, not 400: there is no such rule. The other half of the claim holds, see
  \<open>query_rejects_mutating\<close> and \<open>test_rejects_insert\<close>.
\<close>

theorem execute_select_not_found:
  "status (fst (serve a k db
      (client_post ''/fenrir/execute'' (JObject [(''sql'', JString ''SELECT * FROM author'')])) e)) = 404 \<and>
   snd (serve a k db
      (client_post ''/fenrir/execute'' (JObject [(''sql'', JString ''SELECT * FROM author'')])) e) = e"
proof -
  have "path (client_post ''/fenrir/execute'' (JObject [(''sql'', JString ''SELECT * FROM author'')]))
          = ''/fenrir/execute''"
    by (simp add: client_post_def)
  then show ?thesis by (simp add: serve_execute not_found_def)
qed

text \<open>
  Claim C7. An empty JSON object posted to \<open>/fenrir/execute\<close>
  (\<open>TestExecute.test_missing_sql\<close>) is answered 404, not 400: there is no such rule. On
  \<open>/fenrir/query\<close> the claim holds, see \<open>query_missing_sql\<close> and
  \<open>test_query_missing_sql\<close>: 400 and no call on the engine.
\<close>

theorem execute_missing_sql_not_found:
  "status (fst (serve a k db (client_post ''/fenrir/execute'' (JObject [])) e)) = 404 \<and>
   snd (serve a k db (client_post ''/fenrir/execute'' (JObject [])) e) = e"
proof -
  have "path (client_post ''/fenrir/execute'' (JObject [])) = ''/fenrir/execute''"
    by (simp add: client_post_def)
  then show ?thesis by (simp add: serve_execute not_found_def)
qed

end
